theory Spec2Isabelle
  imports Complex_Main
begin

section \<open>Python numbers\<close>

text \<open>
  The function under study, \<^verbatim>\<open>calcular_tiempo_para_volumen\<close>, is arithmetic on Python
  numbers. Its arguments are Python \<^verbatim>\<open>int\<close>s (unbounded) or \<^verbatim>\<open>float\<close>s (IEEE-754
  binary64). A float is modelled by its exact real value, or one of the three special
  values. The sign of zero is not represented: no operation used by the function
  distinguishes \<^verbatim>\<open>-0.0\<close> from \<^verbatim>\<open>0.0\<close> other than by the sign of a zero result.
\<close>

datatype pyfloat = Finite real | PosInf | NegInf | NaN

datatype pynum = PyInt int | PyFloat pyfloat

datatype pyerror = OverflowError | ValueError | ZeroDivisionError

subsection \<open>Rounding to binary64\<close>

text \<open>Round to the nearest integer, ties to even.\<close>

definition rne :: "real \<Rightarrow> int" where
  "rne x =
     (let f = \<lfloor>x\<rfloor>; d = x - of_int f
      in if d < 1 / 2 then f
         else if 1 / 2 < d then f + 1
         else if even f then f else f + 1)"

text \<open>
  The exponent of the binade of \<open>x\<close>, held at \<open>-1022\<close> in the subnormal range, and the
  spacing of the binary64 numbers there (53 significant bits).
\<close>

definition expo :: "real \<Rightarrow> int" where
  "expo x = max \<lfloor>log 2 \<bar>x\<bar>\<rfloor> (- 1022)"

definition quantum :: "real \<Rightarrow> real" where
  "quantum x = 2 powi (expo x - 52)"

definition round_nearest :: "real \<Rightarrow> real" where
  "round_nearest x = of_int (rne (x / quantum x)) * quantum x"

text \<open>
  The IEEE-754 result of an operation whose exact value is \<open>x\<close>: rounded to nearest,
  ties to even, and infinite when the rounded value leaves the binary64 range.
\<close>

definition to_double :: "real \<Rightarrow> pyfloat" where
  "to_double x =
     (let y = round_nearest x
      in if 2 ^ 1024 \<le> y then PosInf
         else if y \<le> - (2 ^ 1024) then NegInf
         else Finite y)"

subsection \<open>Operations of Python's \<^verbatim>\<open>int\<close> and \<^verbatim>\<open>float\<close>\<close>

text \<open>
  Conversion of an \<^verbatim>\<open>int\<close> operand of a mixed operation: correctly rounded, and
  \<^verbatim>\<open>OverflowError\<close> (int too large to convert to float) beyond the range.
\<close>

definition int_to_float :: "int \<Rightarrow> pyerror + pyfloat" where
  "int_to_float a =
     (case to_double (of_int a) of
        Finite y \<Rightarrow> Inr (Finite y)
      | _ \<Rightarrow> Inl OverflowError)"

fun as_float :: "pynum \<Rightarrow> pyerror + pyfloat" where
  "as_float (PyInt a) = int_to_float a"
| "as_float (PyFloat x) = Inr x"

text \<open>Comparison \<^verbatim>\<open><=\<close> of floats: false as soon as an operand is NaN.\<close>

fun float_le :: "pyfloat \<Rightarrow> pyfloat \<Rightarrow> bool" where
  "float_le NaN _ = False"
| "float_le _ NaN = False"
| "float_le NegInf _ = True"
| "float_le _ PosInf = True"
| "float_le (Finite a) (Finite b) = (a \<le> b)"
| "float_le PosInf _ = False"
| "float_le _ NegInf = False"

text \<open>Python compares an \<^verbatim>\<open>int\<close> with a \<^verbatim>\<open>float\<close> by their exact values.\<close>

fun py_le :: "pynum \<Rightarrow> pynum \<Rightarrow> bool" where
  "py_le (PyInt a) (PyInt b) = (a \<le> b)"
| "py_le (PyInt a) (PyFloat y) = float_le (Finite (of_int a)) y"
| "py_le (PyFloat x) (PyInt b) = float_le x (Finite (of_int b))"
| "py_le (PyFloat x) (PyFloat y) = float_le x y"

text \<open>IEEE-754 multiplication; it never raises in Python.\<close>

fun float_mul :: "pyfloat \<Rightarrow> pyfloat \<Rightarrow> pyfloat" where
  "float_mul NaN _ = NaN"
| "float_mul _ NaN = NaN"
| "float_mul (Finite a) (Finite b) = to_double (a * b)"
| "float_mul (Finite a) PosInf = (if a = 0 then NaN else if 0 < a then PosInf else NegInf)"
| "float_mul (Finite a) NegInf = (if a = 0 then NaN else if 0 < a then NegInf else PosInf)"
| "float_mul PosInf (Finite b) = (if b = 0 then NaN else if 0 < b then PosInf else NegInf)"
| "float_mul NegInf (Finite b) = (if b = 0 then NaN else if 0 < b then NegInf else PosInf)"
| "float_mul PosInf PosInf = PosInf"
| "float_mul PosInf NegInf = NegInf"
| "float_mul NegInf PosInf = NegInf"
| "float_mul NegInf NegInf = PosInf"

text \<open>
  Float division: \<^verbatim>\<open>ZeroDivisionError\<close> on a zero divisor whatever the dividend,
  IEEE-754 otherwise.
\<close>

fun float_div :: "pyfloat \<Rightarrow> pyfloat \<Rightarrow> pyerror + pyfloat" where
  "float_div x (Finite b) =
     (if b = 0 then Inl ZeroDivisionError
      else case x of
             Finite a \<Rightarrow> Inr (to_double (a / b))
           | PosInf \<Rightarrow> Inr (if 0 < b then PosInf else NegInf)
           | NegInf \<Rightarrow> Inr (if 0 < b then NegInf else PosInf)
           | NaN \<Rightarrow> Inr NaN)"
| "float_div (Finite a) PosInf = Inr (Finite 0)"
| "float_div (Finite a) NegInf = Inr (Finite 0)"
| "float_div _ _ = Inr NaN"

text \<open>
  \<^verbatim>\<open>*\<close>: exact on two \<^verbatim>\<open>int\<close>s; otherwise both operands are converted to float
  first (the right one after the left one), then multiplied.
\<close>

fun py_mul :: "pynum \<Rightarrow> pynum \<Rightarrow> pyerror + pynum" where
  "py_mul (PyInt a) (PyInt b) = Inr (PyInt (a * b))"
| "py_mul x y =
     (case as_float x of
        Inl e \<Rightarrow> Inl e
      | Inr u \<Rightarrow>
          (case as_float y of
             Inl e \<Rightarrow> Inl e
           | Inr v \<Rightarrow> Inr (PyFloat (float_mul u v))))"

text \<open>
  \<^verbatim>\<open>/\<close> (true division) always yields a float. On two \<^verbatim>\<open>int\<close>s it is the correctly
  rounded exact quotient, with \<^verbatim>\<open>OverflowError\<close> when that is too large for a float.
\<close>

fun py_truediv :: "pynum \<Rightarrow> pynum \<Rightarrow> pyerror + pyfloat" where
  "py_truediv (PyInt a) (PyInt b) =
     (if b = 0 then Inl ZeroDivisionError
      else case to_double (of_int a / of_int b) of
             Finite y \<Rightarrow> Inr (Finite y)
           | _ \<Rightarrow> Inl OverflowError)"
| "py_truediv x y =
     (case as_float x of
        Inl e \<Rightarrow> Inl e
      | Inr u \<Rightarrow>
          (case as_float y of
             Inl e \<Rightarrow> Inl e
           | Inr v \<Rightarrow> float_div u v))"

text \<open>
  \<^verbatim>\<open>math.log2\<close> of a float. NaN and \<open>+inf\<close> are returned as they are, a non-positive
  argument is a \<^verbatim>\<open>ValueError\<close> (math domain error). On a positive finite argument
  CPython calls the C library's \<^verbatim>\<open>log2\<close>, modelled here as the correctly rounded
  base-2 logarithm.
\<close>

fun math_log2 :: "pyfloat \<Rightarrow> pyerror + pyfloat" where
  "math_log2 NaN = Inr NaN"
| "math_log2 PosInf = Inr PosInf"
| "math_log2 NegInf = Inl ValueError"
| "math_log2 (Finite x) = (if 0 < x then Inr (to_double (log 2 x)) else Inl ValueError)"

text \<open>
  \<^verbatim>\<open>math.ceil\<close> of a float is an \<^verbatim>\<open>int\<close>; NaN is a \<^verbatim>\<open>ValueError\<close> and an
  infinity an \<^verbatim>\<open>OverflowError\<close>.
\<close>

fun math_ceil :: "pyfloat \<Rightarrow> pyerror + int" where
  "math_ceil NaN = Inl ValueError"
| "math_ceil PosInf = Inl OverflowError"
| "math_ceil NegInf = Inl OverflowError"
| "math_ceil (Finite x) = Inr \<lceil>x\<rceil>"

text \<open>Sequencing: an exception raised by a step is the outcome of the whole.\<close>

definition entonces :: "pyerror + 'a \<Rightarrow> ('a \<Rightarrow> pyerror + 'b) \<Rightarrow> pyerror + 'b" where
  "entonces m f = (case m of Inl e \<Rightarrow> Inl e | Inr x \<Rightarrow> f x)"

section \<open>The growth calculator\<close>

text \<open>
  One sample of the evolution series: elapsed minutes, volume, duplication index. The
  volume is an \<^verbatim>\<open>int\<close> when the initial volume is one.
\<close>

type_synonym punto = "pyfloat \<times> pynum \<times> int"

text \<open>
  The body of the loop \<^verbatim>\<open>for n in range(duplicaciones_necesarias + 1)\<close>, in the order
  of the source: \<^verbatim>\<open>n * tiempo_duplicacion\<close>, then
  \<^verbatim>\<open>volumen_inicial * (2 ** n)\<close>, then the division by 60 inside the appended tuple.
  \<open>n\<close> is never negative in the loop, so \<^verbatim>\<open>2 ** n\<close> is an \<^verbatim>\<open>int\<close>.
\<close>

definition paso :: "pynum \<Rightarrow> pynum \<Rightarrow> int \<Rightarrow> pyerror + punto" where
  "paso volumen_inicial tiempo_duplicacion n =
     entonces (py_mul (PyInt n) tiempo_duplicacion) (\<lambda>tiempo_actual.
     entonces (py_mul volumen_inicial (PyInt (2 ^ nat n))) (\<lambda>volumen_actual.
     entonces (py_truediv tiempo_actual (PyInt 60)) (\<lambda>minutos.
     Inr (minutos, volumen_actual, n))))"

text \<open>The loop appends one point per index, and stops at the first exception.\<close>

fun evolucion :: "pynum \<Rightarrow> pynum \<Rightarrow> int list \<Rightarrow> pyerror + punto list" where
  "evolucion volumen_inicial tiempo_duplicacion [] = Inr []"
| "evolucion volumen_inicial tiempo_duplicacion (n # ns) =
     entonces (paso volumen_inicial tiempo_duplicacion n) (\<lambda>p.
     entonces (evolucion volumen_inicial tiempo_duplicacion ns) (\<lambda>ps.
     Inr (p # ps)))"

text \<open>
  \<^verbatim>\<open>calcular_tiempo_para_volumen(volumen_objetivo, volumen_inicial, tiempo_duplicacion)\<close>.
  The hours and days the source also computes are float divisions by the constants 60
  and 24 of a value that is already a float; they cannot raise and are not returned.
\<close>

definition calcular_tiempo_para_volumen ::
  "pynum \<Rightarrow> pynum \<Rightarrow> pynum \<Rightarrow> pyerror + (pynum \<times> int \<times> punto list)" where
  "calcular_tiempo_para_volumen volumen_objetivo volumen_inicial tiempo_duplicacion =
     (if py_le volumen_inicial (PyInt 0) \<or> py_le volumen_objetivo volumen_inicial
      then Inr (PyInt 0, 0, [])
      else
        entonces (py_truediv volumen_objetivo volumen_inicial) (\<lambda>cociente.
        entonces (math_log2 cociente) (\<lambda>l.
        entonces (math_ceil l) (\<lambda>duplicaciones_necesarias.
        entonces (py_mul (PyInt duplicaciones_necesarias) tiempo_duplicacion)
          (\<lambda>tiempo_total_segundos.
        entonces (py_truediv tiempo_total_segundos (PyInt 60)) (\<lambda>tiempo_total_minutos.
        entonces (evolucion volumen_inicial tiempo_duplicacion [0..duplicaciones_necesarias])
          (\<lambda>datos_evolucion.
        Inr (PyFloat tiempo_total_minutos, duplicaciones_necesarias, datos_evolucion))))))))"

text \<open>The module constant \<^verbatim>\<open>TIEMPO_DUPLICACION = 5 * 60\<close>, the default third argument.\<close>

definition TIEMPO_DUPLICACION :: pynum where
  "TIEMPO_DUPLICACION = PyInt (5 * 60)"

text \<open>
  The module constants \<^verbatim>\<open>VOLUMEN_DORAYAKI = 0.00015\<close> and
  \<^verbatim>\<open>VOLUMEN_CANICA = 0.0000001\<close>: a float literal is the binary64 number nearest to
  the decimal.
\<close>

definition VOLUMEN_DORAYAKI :: pynum where
  "VOLUMEN_DORAYAKI = PyFloat (to_double (15 / 100000))"

definition VOLUMEN_CANICA :: pynum where
  "VOLUMEN_CANICA = PyFloat (to_double (1 / 10000000))"

section \<open>Well-formed arguments\<close>

text \<open>
  The finite binary64 numbers: an integer significand below \<open>2 ^ 53\<close> in magnitude
  scaled by a power of two no smaller than \<open>2 powi -1074\<close>, below \<open>2 ^ 1024\<close> in
  magnitude.
\<close>

definition is_double :: "real \<Rightarrow> bool" where
  "is_double x \<longleftrightarrow>
     (\<exists>m j. \<bar>m\<bar> < 2 ^ 53 \<and> - 1074 \<le> j \<and> x = of_int m * 2 powi j) \<and> \<bar>x\<bar> < 2 ^ 1024"

text \<open>An argument is any \<^verbatim>\<open>int\<close>, or a \<^verbatim>\<open>float\<close> whose finite value is a binary64 number.\<close>

fun es_numero :: "pynum \<Rightarrow> bool" where
  "es_numero (PyInt a) = True"
| "es_numero (PyFloat (Finite x)) = is_double x"
| "es_numero (PyFloat _) = True"

text \<open>
  Doubling periods for which no conversion of the elapsed time can overflow: any
  \<^verbatim>\<open>float\<close>, and an \<^verbatim>\<open>int\<close> of magnitude at most \<open>2 ^ 1000\<close>.
\<close>

fun periodo_admisible :: "pynum \<Rightarrow> bool" where
  "periodo_admisible (PyInt p) = (\<bar>p\<bar> \<le> 2 ^ 1000)"
| "periodo_admisible (PyFloat _) = True"

section \<open>Ordered series\<close>




section \<open>Properties of rounding\<close>

text \<open>
  Rounding never crosses a binary64 number: a bound of the form \<open>m * 2 powi j\<close> with
  \<open>m < 2 ^ 53\<close> and \<open>j \<ge> -1074\<close> on the exact value is a bound on the rounded one.
\<close>

lemma rne_floor_le: "\<lfloor>x\<rfloor> \<le> rne x"
  by (simp add: rne_def Let_def)

lemma rne_le_floor1: "rne x \<le> \<lfloor>x\<rfloor> + 1"
  by (simp add: rne_def Let_def)

lemma rne_of_int: "rne (of_int k) = k"
  by (simp add: rne_def Let_def)

lemma rne_ge: 
  assumes "of_int a \<le> x" shows "a \<le> rne x"
proof -
  have "a \<le> \<lfloor>x\<rfloor>" using assms by (simp add: le_floor_iff)
  with rne_floor_le [of x] show ?thesis by linarith
qed

lemma rne_le: 
  assumes "x \<le> of_int b" shows "rne x \<le> b"
proof (cases "x = of_int b")
  case True then show ?thesis by (simp add: rne_of_int)
next
  case False
  with assms have "x < of_int b" by simp
  then have "\<lfloor>x\<rfloor> < b" by (simp add: floor_less_iff)
  with rne_le_floor1 [of x] show ?thesis by linarith
qed

lemma powr_powi: "(2::real) powr real_of_int k = 2 powi k"
  by (simp add: powr_real_of_int')

lemma pow2_floor_log:
  assumes "0 < x"
  shows "2 powi \<lfloor>log 2 x\<rfloor> \<le> x" and "x < 2 powi (\<lfloor>log 2 x\<rfloor> + 1)"
proof -
  have "2 powr (of_int \<lfloor>log 2 x\<rfloor>) \<le> x \<and> x < 2 powr (of_int \<lfloor>log 2 x\<rfloor> + 1)"
    using floor_log_eq_powr_iff [of x 2 "\<lfloor>log 2 x\<rfloor>"] assms by simp
  then have a: "2 powr (of_int \<lfloor>log 2 x\<rfloor>) \<le> x" and b: "x < 2 powr (of_int (\<lfloor>log 2 x\<rfloor> + 1))"
    by simp_all
  show "2 powi \<lfloor>log 2 x\<rfloor> \<le> x" using a by (simp only: powr_powi)
  show "x < 2 powi (\<lfloor>log 2 x\<rfloor> + 1)" using b by (simp only: powr_powi)
qed

lemma floor_log_less:
  assumes "0 < x" "x < 2 powi k" shows "\<lfloor>log 2 x\<rfloor> < k"
proof (rule ccontr)
  assume "\<not> \<lfloor>log 2 x\<rfloor> < k"
  then have "k \<le> \<lfloor>log 2 x\<rfloor>" by simp
  then have "(2::real) powi k \<le> 2 powi \<lfloor>log 2 x\<rfloor>" by (intro power_int_increasing) simp_all
  with pow2_floor_log(1) [OF assms(1)] assms(2) show False by linarith
qed

lemma floor_log_ge:
  assumes "2 powi k \<le> x" shows "k \<le> \<lfloor>log 2 x\<rfloor>"
proof (rule ccontr)
  have "(0::real) < 2 powi k" by simp
  with assms have x: "0 < x" by linarith
  assume "\<not> k \<le> \<lfloor>log 2 x\<rfloor>"
  then have "\<lfloor>log 2 x\<rfloor> + 1 \<le> k" by simp
  then have "(2::real) powi (\<lfloor>log 2 x\<rfloor> + 1) \<le> 2 powi k" by (intro power_int_increasing) simp_all
  with pow2_floor_log(2) [OF x] assms show False by linarith
qed

lemma quantum_pos: "0 < quantum x"
  by (simp add: quantum_def)

text \<open>A value on the grid of spacing \<open>2 powi j\<close> is on every finer grid.\<close>

lemma grid_int:
  assumes "i \<le> j"
  shows "of_int m * 2 powi j / 2 powi i = real_of_int (m * 2 ^ nat (j - i))"
proof -
  have "(2::real) powi j = 2 powi i * 2 powi (j - i)"
    by (simp flip: power_int_add)
  moreover have "(2::real) powi (j - i) = 2 ^ nat (j - i)"
    using assms by (simp add: power_int_def)
  ultimately show ?thesis by simp
qed


lemma expo_pos_le:
  assumes "0 < x" "x < 2 powi (j + 53)" "- 1074 \<le> j"
  shows "expo x - 52 \<le> j"
proof -
  have "\<lfloor>log 2 x\<rfloor> < j + 53" using assms(1,2) by (rule floor_log_less)
  with assms(3) show ?thesis using assms(1) by (simp add: expo_def)
qed

lemma round_nearest_le:
  assumes x: "0 < x" and le: "x \<le> of_int m * 2 powi j" and m: "m < 2 ^ 53" and j: "- 1074 \<le> j"
  shows "round_nearest x \<le> of_int m * 2 powi j"
proof -
  define q where "q = quantum x"
  have q: "0 < q" "q = 2 powi (expo x - 52)" by (simp_all add: q_def quantum_def)
  have "real_of_int m < 2 ^ 53" using m by (metis of_int_less_numeral_power_cancel_iff)
  then have "of_int m * 2 powi j < (2::real) ^ 53 * 2 powi j" by simp
  also have "\<dots> = 2 powi (j + 53)" by (simp add: power_int_add)
  finally have "x < 2 powi (j + 53)" using le by linarith
  then have e: "expo x - 52 \<le> j" using x j by (intro expo_pos_le)
  have "of_int m * 2 powi j / q = real_of_int (m * 2 ^ nat (j - (expo x - 52)))"
    unfolding q(2) using e by (rule grid_int)
  moreover have "x / q \<le> of_int m * 2 powi j / q" using le q(1) by (simp add: divide_right_mono)
  ultimately have "rne (x / q) \<le> m * 2 ^ nat (j - (expo x - 52))" by (intro rne_le) simp
  then have "real_of_int (rne (x / q)) \<le> real_of_int (m * 2 ^ nat (j - (expo x - 52)))"
    by (simp only: of_int_le_iff)
  also have "\<dots> = of_int m * 2 powi j / q"
    unfolding q(2) using e by (rule grid_int [symmetric])
  finally have "real_of_int (rne (x / q)) * q \<le> of_int m * 2 powi j"
    using q(1) by (simp add: pos_le_divide_eq)
  then show ?thesis by (simp add: round_nearest_def q_def)
qed

lemma round_nearest_ge:
  assumes b: "0 < m" and le: "of_int m * 2 powi j \<le> x" and m: "m < 2 ^ 53" and j: "- 1074 \<le> j"
  shows "of_int m * 2 powi j \<le> round_nearest x"
proof -
  define q where "q = quantum x"
  have q: "0 < q" "q = 2 powi (expo x - 52)" by (simp_all add: q_def quantum_def)
  have "0 < real_of_int m * 2 powi j" using b by simp
  with le have x: "0 < x" by linarith
  show ?thesis
  proof (cases "expo x - 52 \<le> j")
    case True
    have eq: "of_int m * 2 powi j / q = real_of_int (m * 2 ^ nat (j - (expo x - 52)))"
      unfolding q(2) using True by (rule grid_int)
    have "of_int m * 2 powi j / q \<le> x / q" using le q(1) by (simp add: divide_right_mono)
    then have "m * 2 ^ nat (j - (expo x - 52)) \<le> rne (x / q)"
      unfolding eq by (rule rne_ge)
    then have "real_of_int (m * 2 ^ nat (j - (expo x - 52))) \<le> real_of_int (rne (x / q))"
      by (simp only: of_int_le_iff)
    then have "of_int m * 2 powi j / q \<le> real_of_int (rne (x / q))"
      by (simp only: eq)
    then have "of_int m * 2 powi j \<le> real_of_int (rne (x / q)) * q"
      using q(1) by (simp add: pos_divide_le_eq)
    then show ?thesis by (simp add: round_nearest_def q_def)
  next
    case False
    then have big: "j + 53 \<le> expo x" by simp
    with j have ex: "expo x = \<lfloor>log 2 x\<rfloor>" using x by (simp add: expo_def max_def split: if_splits)
    have px: "2 powi expo x \<le> x" unfolding ex using x by (rule pow2_floor_log(1))
    have eq: "2 powi expo x / q = real_of_int (2 ^ 52)"
      using grid_int [of "expo x - 52" "expo x" 1] by (simp add: q(2))
    have "2 powi expo x / q \<le> x / q" using px q(1) by (simp add: divide_right_mono)
    then have "2 ^ 52 \<le> rne (x / q)" unfolding eq by (rule rne_ge)
    then have "real_of_int (2 ^ 52) \<le> real_of_int (rne (x / q))" by (simp only: of_int_le_iff)
    then have "2 powi expo x / q \<le> real_of_int (rne (x / q))" by (simp only: eq)
    then have r: "2 powi expo x \<le> real_of_int (rne (x / q)) * q"
      using q(1) by (simp add: pos_divide_le_eq)
    have "real_of_int m < 2 ^ 53" using m by (metis of_int_less_numeral_power_cancel_iff)
    then have "of_int m * 2 powi j < (2::real) ^ 53 * 2 powi j" by simp
    also have "\<dots> = 2 powi (j + 53)" by (simp add: power_int_add)
    also have "\<dots> \<le> 2 powi expo x" using big by (intro power_int_increasing) simp_all
    finally show ?thesis using r by (simp add: round_nearest_def q_def)
  qed
qed

lemma round_nearest_exact:
  assumes "0 < m" "m < 2 ^ 53" "- 1074 \<le> j"
  shows "round_nearest (of_int m * 2 powi j) = of_int m * 2 powi j"
proof (rule antisym)
  have "0 < real_of_int m * 2 powi j" using assms(1) by simp
  then show "round_nearest (of_int m * 2 powi j) \<le> of_int m * 2 powi j"
    using assms by (intro round_nearest_le) simp_all
  show "of_int m * 2 powi j \<le> round_nearest (of_int m * 2 powi j)"
    using assms by (intro round_nearest_ge) simp_all
qed

lemma round_nearest_0: "round_nearest 0 = 0"
  by (simp add: round_nearest_def rne_def)

lemma round_nearest_nonneg: 
  assumes "0 \<le> x" shows "0 \<le> round_nearest x"
proof -
  have "0 \<le> x / quantum x" using assms quantum_pos [of x] by simp
  then have "0 \<le> rne (x / quantum x)" by (intro rne_ge) simp
  then show ?thesis using quantum_pos [of x] by (simp add: round_nearest_def)
qed

lemma to_double_finite:
  assumes "round_nearest x < 2 ^ 1024" "- (2 ^ 1024) < round_nearest x"
  shows "to_double x = Finite (round_nearest x)"
  using assms by (simp add: to_double_def Let_def)

lemma two_powi_1024: "(2::real) powi 1024 = 2 ^ 1024"
  by (simp add: power_int_def)

lemma to_double_overflow:
  assumes "2 ^ 1024 \<le> x" shows "to_double x = PosInf"
proof -
  have "real_of_int 1 * 2 powi 1024 \<le> round_nearest x"
    using assms by (intro round_nearest_ge) (simp_all add: two_powi_1024)
  then show ?thesis by (simp add: to_double_def Let_def two_powi_1024)
qed

lemma to_double_pos_le:
  assumes "0 < x" "x \<le> of_int m * 2 powi j" "m < 2 ^ 53" "- 1074 \<le> j"
    "of_int m * 2 powi j < (2::real) ^ 1024"
  shows "to_double x = Finite (round_nearest x)" 
    and "round_nearest x \<le> of_int m * 2 powi j" and "0 \<le> round_nearest x"
proof -
  show le: "round_nearest x \<le> of_int m * 2 powi j" using assms(1-4) by (rule round_nearest_le)
  show nn: "0 \<le> round_nearest x" using assms(1) by (intro round_nearest_nonneg) simp
  show "to_double x = Finite (round_nearest x)"
    using le nn assms(5) by (intro to_double_finite) linarith+
qed

lemma to_double_exact:
  assumes "0 < m" "m < 2 ^ 53" "- 1074 \<le> j" "of_int m * 2 powi j < (2::real) ^ 1024"
  shows "to_double (of_int m * 2 powi j) = Finite (of_int m * 2 powi j)"
proof -
  have r: "round_nearest (of_int m * 2 powi j) = of_int m * 2 powi j"
    using assms(1-3) by (rule round_nearest_exact)
  have "0 < real_of_int m * 2 powi j" using assms(1) by simp
  then show ?thesis using assms(4) by (simp add: to_double_def Let_def r)
qed

lemma to_double_0: "to_double 0 = Finite 0"
  by (simp add: to_double_def round_nearest_0)

lemma to_double_nat:
  assumes "k < 2 ^ 53" shows "to_double (real k) = Finite (real k)"
proof (cases "k = 0")
  case True then show ?thesis by (simp add: to_double_0)
next
  case False
  have "real k < 2 ^ 53" using assms by (metis of_nat_less_numeral_power_cancel_iff)
  also have "\<dots> < (2::real) ^ 1024" by simp
  finally have "real_of_int (int k) * 2 powi 0 < (2::real) ^ 1024" by simp
  then have "to_double (of_int (int k) * 2 powi 0) = Finite (of_int (int k) * 2 powi 0)"
    using False assms by (intro to_double_exact) simp_all
  then show ?thesis by simp
qed

lemma to_double_pow2:
  assumes "k < 1024" shows "to_double (2 ^ k) = Finite (2 ^ k)"
proof -
  have "(2::real) ^ k < 2 ^ 1024" using assms by (intro power_strict_increasing) simp_all
  then have "real_of_int 1 * 2 powi int k < (2::real) ^ 1024" by (simp add: power_int_def)
  then have "to_double (of_int 1 * 2 powi int k) = Finite (of_int 1 * 2 powi int k)"
    by (intro to_double_exact) simp_all
  then show ?thesis by (simp add: power_int_def)
qed




section \<open>Properties of the calculator\<close>

lemma entonces_Inr:
  "entonces m f = Inr r \<longleftrightarrow> (\<exists>x. m = Inr x \<and> f x = Inr r)"
  by (cases m) (simp_all add: entonces_def)

lemma entonces_ok: "m = Inr x \<Longrightarrow> entonces m f = f x"
  by (simp add: entonces_def)

lemma evolucion_Inr:
  "evolucion vi td ks = Inr ps \<Longrightarrow>
   length ps = length ks \<and> (\<forall>i < length ks. paso vi td (ks ! i) = Inr (ps ! i))"
proof (induction ks arbitrary: ps)
  case Nil
  then show ?case by simp
next
  case (Cons k ks)
  from Cons.prems obtain p ps' where p: "paso vi td k = Inr p"
    and r: "evolucion vi td ks = Inr ps'" and eq: "ps = p # ps'"
    by (auto simp: entonces_Inr)
  from Cons.IH [OF r] have len: "length ps' = length ks"
    and nth: "\<forall>i < length ks. paso vi td (ks ! i) = Inr (ps' ! i)" by simp_all
  show ?case
  proof (intro conjI allI impI)
    show "length ps = length (k # ks)" using len eq by simp
    fix i assume "i < length (k # ks)"
    then show "paso vi td ((k # ks) ! i) = Inr (ps ! i)"
      using p nth eq by (cases i) simp_all
  qed
qed

lemma evolucion_map:
  "(\<And>k. k \<in> set ks \<Longrightarrow> paso vi td k = Inr (f k)) \<Longrightarrow> evolucion vi td ks = Inr (map f ks)"
  by (induction ks) (simp_all add: entonces_def)

lemma nth_upto0: "0 \<le> k \<Longrightarrow> k \<le> n \<Longrightarrow> [0..n] ! nat k = k"
  by (simp add: nth_upto)

lemma is_double_pos_repr:
  assumes "is_double x" "0 < x"
  obtains m j where "0 < m" "m < 2 ^ 53" "- 1074 \<le> j" "x = of_int m * 2 powi j"
proof -
  from assms(1) obtain m j where m: "\<bar>m\<bar> < 2 ^ 53" "- 1074 \<le> j" "x = of_int m * 2 powi j"
    by (auto simp: is_double_def)
  from assms(2) m(3) have "0 < real_of_int m * 2 powi j" by simp
  then have "0 < real_of_int m" by (rule zero_less_mult_pos2) simp
  then have "0 < m" by simp
  with m that show ?thesis by auto
qed

lemma to_double_ge_one:
  assumes "1 \<le> x" "to_double x = Finite y" shows "1 \<le> y"
proof -
  have "real_of_int 1 * 2 powi 0 \<le> round_nearest x"
    using assms(1) by (intro round_nearest_ge) simp_all
  moreover have "y = round_nearest x"
    using assms(2) by (simp add: to_double_def Let_def split: if_splits)
  ultimately show ?thesis by simp
qed

lemma to_double_Finite_eq:
  "to_double x = Finite y \<Longrightarrow> y = round_nearest x"
  by (simp add: to_double_def Let_def split: if_splits)

lemma int_to_float_Finite:
  assumes "int_to_float a = Inr u" shows "u = Finite (round_nearest (of_int a))"
proof (cases "to_double (of_int a)")
  case (Finite y)
  then have "y = round_nearest (of_int a)" by (rule to_double_Finite_eq)
  with assms Finite show ?thesis by (simp add: int_to_float_def)
qed (use assms in \<open>simp_all add: int_to_float_def\<close>)

text \<open>On a non-degenerate input the quotient, when it is finite, is at least one.\<close>

lemma cociente_ge_one:
  assumes nd: "\<not> py_le vi (PyInt 0)" "\<not> py_le vo vi"
    and wf: "es_numero vo" "es_numero vi"
    and q: "py_truediv vo vi = Inr (Finite x)"
  shows "1 \<le> x"
proof (cases vo)
  case (PyInt a)
  show ?thesis
  proof (cases vi)
    case (PyInt b)
    with nd \<open>vo = PyInt a\<close> have ab: "0 < b" "b < a" by simp_all
    then have "1 \<le> real_of_int a / real_of_int b" by simp
    moreover from q \<open>vo = PyInt a\<close> \<open>vi = PyInt b\<close> ab
    have "to_double (real_of_int a / real_of_int b) = Finite x"
      by (simp split: pyfloat.splits)
    ultimately show ?thesis by (rule to_double_ge_one)
  next
    case (PyFloat v)
    show ?thesis
    proof (cases v)
      case (Finite b)
      with nd wf \<open>vo = PyInt a\<close> \<open>vi = PyFloat v\<close>
      have b: "0 < b" "b < of_int a" "is_double b" by simp_all
      from q \<open>vo = PyInt a\<close> \<open>vi = PyFloat v\<close> Finite b(1)
      have x: "to_double (round_nearest (of_int a) / b) = Finite x"
        by (auto simp: entonces_def dest!: int_to_float_Finite split: sum.splits)
      from b(3,1) obtain m j where m: "0 < m" "m < 2 ^ 53" "- 1074 \<le> j" "b = of_int m * 2 powi j"
        by (rule is_double_pos_repr)
      have "of_int m * 2 powi j \<le> round_nearest (of_int a)"
        using m b(2) by (intro round_nearest_ge) simp_all
      then have "1 \<le> round_nearest (of_int a) / b" using b(1) m(4) by simp
      then show ?thesis using x by (rule to_double_ge_one)
    next
      case PosInf
      with nd \<open>vo = PyInt a\<close> \<open>vi = PyFloat v\<close> show ?thesis by simp
    next
      case NegInf
      with nd \<open>vo = PyInt a\<close> \<open>vi = PyFloat v\<close> show ?thesis by simp
    next
      case NaN
      with q \<open>vo = PyInt a\<close> \<open>vi = PyFloat v\<close> show ?thesis
        by (auto split: sum.splits pyfloat.splits)
    qed
  qed
next
  case (PyFloat u)
  show ?thesis
  proof (cases vi)
    case (PyInt b)
    with nd have b: "0 < b" by simp
    show ?thesis
    proof (cases u)
      case (Finite a)
      with nd wf \<open>vo = PyFloat u\<close> \<open>vi = PyInt b\<close>
      have a: "of_int b < a" "is_double a" by simp_all
      have ap: "0 < a" using a(1) b by (smt (verit) of_int_pos)
      from a(2) ap obtain m j where m: "0 < m" "m < 2 ^ 53" "- 1074 \<le> j" "a = of_int m * 2 powi j"
        by (rule is_double_pos_repr)
      have le: "round_nearest (of_int b) \<le> a"
        unfolding m(4) using b a(1) m by (intro round_nearest_le) simp_all
      have "real_of_int 1 * 2 powi 0 \<le> round_nearest (of_int b)"
        using b by (intro round_nearest_ge) simp_all
      then have pos: "0 < round_nearest (of_int b)" by simp
      from q \<open>vo = PyFloat u\<close> \<open>vi = PyInt b\<close> Finite pos
      have x: "to_double (a / round_nearest (of_int b)) = Finite x"
        by (auto dest!: int_to_float_Finite split: sum.splits)
      have "1 \<le> a / round_nearest (of_int b)" using le pos by simp
      then show ?thesis using x by (rule to_double_ge_one)
    next
      case PosInf
      with q \<open>vo = PyFloat u\<close> \<open>vi = PyInt b\<close> show ?thesis
        by (auto dest!: int_to_float_Finite split: sum.splits if_splits)
    next
      case NegInf
      with nd \<open>vo = PyFloat u\<close> \<open>vi = PyInt b\<close> show ?thesis by simp
    next
      case NaN
      with q \<open>vo = PyFloat u\<close> \<open>vi = PyInt b\<close> show ?thesis
        by (auto dest!: int_to_float_Finite split: sum.splits if_splits)
    qed
  next
    case (PyFloat v)
    show ?thesis
    proof (cases "\<exists>a b. u = Finite a \<and> v = Finite b")
      case True
      then obtain a b where ab: "u = Finite a" "v = Finite b" by blast
      with nd \<open>vo = PyFloat u\<close> \<open>vi = PyFloat v\<close> have b: "0 < b" "b < a" by simp_all
      then have "1 \<le> a / b" by simp
      moreover from q \<open>vo = PyFloat u\<close> \<open>vi = PyFloat v\<close> ab b
      have "to_double (a / b) = Finite x" by simp
      ultimately show ?thesis by (rule to_double_ge_one)
    next
      case False
      with nd q \<open>vo = PyFloat u\<close> \<open>vi = PyFloat v\<close> show ?thesis
        by (cases u; cases v) (auto split: if_splits)
    qed
  qed
qed

lemma math_log2_ceil:
  assumes "math_log2 c = Inr l" "math_ceil l = Inr n"
  obtains x y where "c = Finite x" "0 < x" "to_double (log 2 x) = Finite y" "l = Finite y" "n = \<lceil>y\<rceil>"
proof -
  from assms(2) obtain y where l: "l = Finite y" "n = \<lceil>y\<rceil>" by (cases l) simp_all
  from assms(1) l(1) obtain x where "c = Finite x" "0 < x" "to_double (log 2 x) = Finite y"
    by (cases c) (simp_all split: if_splits)
  with l that show ?thesis by blast
qed

text \<open>What a returned result of a non-degenerate call is made of.\<close>

lemma calcular_Inr:
  assumes "\<not> py_le vi (PyInt 0)" "\<not> py_le vo vi"
    and "calcular_tiempo_para_volumen vo vi td = Inr (tm, n, datos)"
  obtains x y s m where "py_truediv vo vi = Inr (Finite x)" "0 < x"
    "to_double (log 2 x) = Finite y" "n = \<lceil>y\<rceil>"
    "py_mul (PyInt n) td = Inr s" "py_truediv s (PyInt 60) = Inr m" "tm = PyFloat m"
    "evolucion vi td [0..n] = Inr datos"
proof -
  from assms obtain c l s m where c: "py_truediv vo vi = Inr c" and l: "math_log2 c = Inr l"
    and n: "math_ceil l = Inr n" and s: "py_mul (PyInt n) td = Inr s"
    and m: "py_truediv s (PyInt 60) = Inr m" and d: "evolucion vi td [0..n] = Inr datos"
    and tm: "tm = PyFloat m"
    unfolding calcular_tiempo_para_volumen_def by (auto simp: entonces_Inr)
  from l n obtain x y where "c = Finite x" "0 < x" "to_double (log 2 x) = Finite y" "n = \<lceil>y\<rceil>"
    by (rule math_log2_ceil)
  with c s m d tm that show ?thesis by blast
qed

lemma duplicaciones_nonneg:
  assumes "\<not> py_le vi (PyInt 0)" "\<not> py_le vo vi" "es_numero vo" "es_numero vi"
    and "calcular_tiempo_para_volumen vo vi td = Inr (tm, n, datos)"
  shows "0 \<le> n"
proof -
  from assms(1,2,5) obtain x y where x: "py_truediv vo vi = Inr (Finite x)"
    and y: "to_double (log 2 x) = Finite y" and n: "n = \<lceil>y\<rceil>"
    by (rule calcular_Inr)
  from assms(1-4) x have "1 \<le> x" by (rule cociente_ge_one)
  then have "0 \<le> log 2 x" by simp
  then have "0 \<le> round_nearest (log 2 x)" by (rule round_nearest_nonneg)
  with to_double_Finite_eq [OF y] have "0 \<le> y" by simp
  with n show ?thesis by simp
qed

lemma to_double_numeral:
  "numeral w < (2::nat) ^ 53 \<Longrightarrow> to_double (numeral w) = Finite (numeral w)"
  using to_double_nat [of "numeral w"] by simp

lemma to_double_1: "to_double 1 = Finite 1"
  using to_double_nat [of 1] by simp

lemma log2_pow2: "log 2 (2 ^ k) = real k"
  by (simp add: log_nat_power)

lemma math_log2_pow2:
  "k < 2 ^ 53 \<Longrightarrow> math_log2 (Finite (2 ^ k)) = Inr (Finite (real k))"
  by (simp add: log2_pow2 to_double_nat)

lemmas eval_simps = calcular_tiempo_para_volumen_def entonces_def paso_def
  to_double_numeral to_double_1 to_double_0 int_to_float_def upto.simps

lemma ejemplo_8:
  "calcular_tiempo_para_volumen (PyFloat (Finite 8)) (PyFloat (Finite 1)) (PyInt 300) =
     Inr (PyFloat (Finite 15), 3,
       [(Finite 0, PyFloat (Finite 1), 0), (Finite 5, PyFloat (Finite 2), 1),
        (Finite 10, PyFloat (Finite 4), 2), (Finite 15, PyFloat (Finite 8), 3)])"
proof -
  have "math_log2 (Finite (2 ^ 3)) = Inr (Finite (real 3))" by (rule math_log2_pow2) simp
  then have l: "math_log2 (Finite 8) = Inr (Finite 3)" by simp
  show ?thesis
    unfolding calcular_tiempo_para_volumen_def
    by (simp add: l eval_simps del: math_log2.simps)
qed

lemma paso_Inr:
  assumes "paso vi td k = Inr p"
  obtains t v m where "py_mul (PyInt k) td = Inr t" "py_mul vi (PyInt (2 ^ nat k)) = Inr v"
    "py_truediv t (PyInt 60) = Inr m" "p = (m, v, k)"
  using assms by (auto simp: paso_def entonces_Inr)

lemma is_doubleI:
  assumes "\<bar>m\<bar> < 2 ^ 53" "- 1074 \<le> j" "x = of_int m * 2 powi j" "\<bar>x\<bar> < 2 ^ 1024"
  shows "is_double x"
  using assms unfolding is_double_def by blast

lemma is_double_nat:
  assumes "k < 2 ^ 53" shows "is_double (real k)"
proof (rule is_doubleI)
  show "\<bar>int k\<bar> < 2 ^ 53" using assms by (simp add: of_nat_less_numeral_power_cancel_iff)
  show "- 1074 \<le> (0::int)" by simp
  show "real k = real_of_int (int k) * 2 powi 0" by simp
  have "real k < 2 ^ 53" using assms by (metis of_nat_less_numeral_power_cancel_iff)
  also have "\<dots> < (2::real) ^ 1024" by (intro power_strict_increasing) simp_all
  finally show "\<bar>real k\<bar> < 2 ^ 1024" by simp
qed

lemma evolucion_puntos:
  assumes "\<not> py_le vi (PyInt 0)" "\<not> py_le vo vi" "es_numero vo" "es_numero vi"
    and "calcular_tiempo_para_volumen vo vi td = Inr (tm, n, datos)"
  shows "int (length datos) = n + 1 \<and>
    (\<forall>k. 0 \<le> k \<and> k \<le> n \<longrightarrow>
      (\<exists>t v m. py_mul (PyInt k) td = Inr t \<and> py_truediv t (PyInt 60) = Inr m \<and>
         py_mul vi (PyInt (2 ^ nat k)) = Inr v \<and> datos ! nat k = (m, v, k)))"
proof -
  from assms(1,2,5) have ev: "evolucion vi td [0..n] = Inr datos" by (rule calcular_Inr)
  from assms have n: "0 \<le> n" by (rule duplicaciones_nonneg)
  from evolucion_Inr [OF ev] have len: "length datos = length [0..n]"
    and nth: "\<And>i. i < length [0..n] \<Longrightarrow> paso vi td ([0..n] ! i) = Inr (datos ! i)" by simp_all
  have l: "int (length datos) = n + 1" using len n by simp
  have "\<exists>t v m. py_mul (PyInt k) td = Inr t \<and> py_truediv t (PyInt 60) = Inr m \<and>
         py_mul vi (PyInt (2 ^ nat k)) = Inr v \<and> datos ! nat k = (m, v, k)"
    if k: "0 \<le> k \<and> k \<le> n" for k
  proof -
    from k have "nat k < length [0..n]" by simp
    then have "paso vi td ([0..n] ! nat k) = Inr (datos ! nat k)" by (rule nth)
    moreover from k have "[0..n] ! nat k = k" by (simp add: nth_upto0)
    ultimately have "paso vi td k = Inr (datos ! nat k)" by simp
    then show ?thesis by (rule paso_Inr) blast
  qed
  with l show ?thesis by blast
qed

lemma to_double_int_nonneg:
  assumes "0 \<le> k" "k < 2 ^ 53" shows "to_double (of_int k) = Finite (of_int k)"
proof -
  have "nat k < 2 ^ 53" using assms by (simp add: nat_less_iff)
  then have "to_double (real (nat k)) = Finite (real (nat k))" by (rule to_double_nat)
  then show ?thesis using assms(1) by simp
qed

lemma pow2_scale:
  assumes "0 \<le> k" shows "(2::real) powi j * 2 ^ nat k = 2 powi (j + k)"
proof -
  have "(2::real) powi k = 2 ^ nat k" using assms by (simp add: power_int_def)
  moreover have "(2::real) powi (j + k) = 2 powi j * 2 powi k" by (simp add: power_int_add)
  ultimately show ?thesis by simp
qed

lemma truediv_60:
  assumes "to_double (of_int a / 60) = Finite z"
  shows "py_truediv (PyInt a) (PyInt 60) = Inr (Finite z)"
  using assms by simp

lemma truediv_300_60:
  assumes "0 \<le> k" "k < 1024"
  shows "py_truediv (PyInt (k * 300)) (PyInt 60) = Inr (Finite (of_int (5 * k)))"
proof (rule truediv_60)
  have "real_of_int (k * 300) / 60 = of_int (5 * k)" by simp
  moreover have "to_double (of_int (5 * k)) = Finite (of_int (5 * k))"
    using assms by (intro to_double_int_nonneg) simp_all
  ultimately show "to_double (real_of_int (k * 300) / 60) = Finite (real_of_int (5 * k))"
    by (simp only:)
qed

text \<open>One step of the loop with the default period of 300 seconds and a float volume.\<close>

lemma paso_300:
  assumes m: "0 < m" "m < 2 ^ 53" and j: "- 1074 \<le> j" and k: "0 \<le> k" "k < 1024"
    and r: "of_int m * 2 powi (j + k) < (2::real) ^ 1024"
  shows "paso (PyFloat (Finite (of_int m * 2 powi j))) (PyInt 300) k =
     Inr (Finite (of_int (5 * k)), PyFloat (Finite (of_int m * 2 powi (j + k))), k)"
proof -
  have t: "py_mul (PyInt k) (PyInt 300) = Inr (PyInt (k * 300))" by simp
  have "nat k < 1024" using k by simp
  then have "to_double (2 ^ nat k) = Finite (2 ^ nat k)" by (rule to_double_pow2)
  then have c: "int_to_float (2 ^ nat k) = Inr (Finite (2 ^ nat k))"
    by (simp add: int_to_float_def)
  have "to_double (of_int m * 2 powi (j + k)) = Finite (of_int m * 2 powi (j + k))"
    using m j k r by (intro to_double_exact) simp_all
  moreover have "of_int m * 2 powi j * 2 ^ nat k = of_int m * (2::real) powi (j + k)"
    using pow2_scale [OF k(1), of j] by (simp add: mult.assoc)
  ultimately have "to_double (of_int m * 2 powi j * 2 ^ nat k) = Finite (of_int m * 2 powi (j + k))"
    by (simp only:)
  then have v: "py_mul (PyFloat (Finite (of_int m * 2 powi j))) (PyInt (2 ^ nat k)) =
      Inr (PyFloat (Finite (of_int m * 2 powi (j + k))))"
    using c by (simp del: of_int_power)
  have d: "py_truediv (PyInt (k * 300)) (PyInt 60) = Inr (Finite (of_int (5 * k)))"
    using k by (rule truediv_300_60)
  show ?thesis
    unfolding paso_def by (simp only: t v d entonces_ok)
qed

text \<open>
  The whole call with the default period, once the quotient and the rounded logarithm
  are known.
\<close>

lemma calcular_300:
  assumes nd: "\<not> py_le (PyFloat (Finite (of_int m * 2 powi j))) (PyInt 0)"
      "\<not> py_le vo (PyFloat (Finite (of_int m * 2 powi j)))"
    and m: "0 < m" "m < 2 ^ 53" and j: "- 1074 \<le> j"
    and q: "py_truediv vo (PyFloat (Finite (of_int m * 2 powi j))) = Inr (Finite x)" "0 < x"
    and l: "to_double (log 2 x) = Finite y" "\<lceil>y\<rceil> = n" "0 \<le> n" "n < 1024"
    and r: "of_int m * 2 powi (j + n) < (2::real) ^ 1024"
  shows "calcular_tiempo_para_volumen vo (PyFloat (Finite (of_int m * 2 powi j))) (PyInt 300) =
     Inr (PyFloat (Finite (of_int (5 * n))), n,
       map (\<lambda>k. (Finite (of_int (5 * k)), PyFloat (Finite (of_int m * 2 powi (j + k))), k)) [0..n])"
proof -
  let ?vi = "PyFloat (Finite (of_int m * 2 powi j))"
  let ?f = "\<lambda>k. (Finite (of_int (5 * k)), PyFloat (Finite (of_int m * 2 powi (j + k))), k)"
  have lg: "math_log2 (Finite x) = Inr (Finite y)" using q(2) l(1) by simp
  have ce: "math_ceil (Finite y) = Inr n" using l(2) by simp
  have s: "py_mul (PyInt n) (PyInt 300) = Inr (PyInt (n * 300))" by simp
  have d: "py_truediv (PyInt (n * 300)) (PyInt 60) = Inr (Finite (of_int (5 * n)))"
    using l(3,4) by (rule truediv_300_60)
  have "paso ?vi (PyInt 300) k = Inr (?f k)" if "k \<in> set [0..n]" for k
  proof -
    from that have k: "0 \<le> k" "k \<le> n" by simp_all
    have "(2::real) powi (j + k) \<le> 2 powi (j + n)" using k by (intro power_int_increasing) simp_all
    then have "of_int m * 2 powi (j + k) \<le> of_int m * (2::real) powi (j + n)"
      using m(1) by simp
    with r have "of_int m * 2 powi (j + k) < (2::real) ^ 1024" by linarith
    with m j k l(4) show ?thesis by (intro paso_300) simp_all
  qed
  then have ev: "evolucion ?vi (PyInt 300) [0..n] = Inr (map ?f [0..n])" by (rule evolucion_map)
  show ?thesis
    unfolding calcular_tiempo_para_volumen_def using nd
    by (simp only: q(1) lg ce s d ev entonces_ok if_False simp_thms)
qed

lemma rne_near:
  assumes "\<bar>y - of_int f\<bar> < 1 / 2" shows "rne y = f"
proof (cases "of_int f \<le> y")
  case True
  with assms have "\<lfloor>y\<rfloor> = f" by (simp add: floor_eq_iff abs_less_iff)
  with assms True show ?thesis by (simp add: rne_def Let_def abs_less_iff)
next
  case False
  with assms have "\<lfloor>y\<rfloor> = f - 1" by (simp add: floor_eq_iff abs_less_iff)
  with assms False show ?thesis by (simp add: rne_def Let_def abs_less_iff)
qed

lemma round_nearest_eval:
  assumes "2 powi e \<le> x" "x < 2 powi (e + 1)" "- 1022 \<le> e"
    and "\<bar>x / 2 powi (e - 52) - of_int f\<bar> < 1 / 2"
  shows "round_nearest x = of_int f * 2 powi (e - 52)"
proof -
  have "(0::real) < 2 powi e" by simp
  with assms(1) have x: "0 < x" by linarith
  have "e \<le> \<lfloor>log 2 x\<rfloor>" using assms(1) by (rule floor_log_ge)
  moreover have "\<lfloor>log 2 x\<rfloor> < e + 1" using x assms(2) by (rule floor_log_less)
  ultimately have "expo x = e" using assms(3) x by (simp add: expo_def)
  then have q: "quantum x = 2 powi (e - 52)" by (simp add: quantum_def)
  show ?thesis unfolding round_nearest_def q using assms(4) by (simp only: rne_near)
qed

lemma dorayaki_double: "to_double (15 / 100000) = Finite (5534023222112865 * 2 powi (- 65))"
proof -
  have "round_nearest (15 / 100000) = of_int 5534023222112865 * 2 powi (- 13 - 52)"
    by (rule round_nearest_eval) (simp_all add: power_int_minus)
  then have r: "round_nearest (15 / 100000) = 5534023222112865 * 2 powi (- 65)" by simp
  show ?thesis unfolding to_double_def r by (simp add: power_int_minus)
qed

lemma canica_double: "to_double (1 / 10000000) = Finite (944473296573929 * 2 powi (- 73))"
proof -
  have "round_nearest (1 / 10000000) = of_int 7555786372591432 * 2 powi (- 24 - 52)"
    by (rule round_nearest_eval) (simp_all add: power_int_minus)
  then have r: "round_nearest (1 / 10000000) = 944473296573929 * 2 powi (- 73)"
    by (simp add: power_int_minus)
  show ?thesis unfolding to_double_def r by (simp add: power_int_minus)
qed

lemma to_double_log2_pow2:
  "k < 2 ^ 53 \<Longrightarrow> to_double (log 2 (2 ^ k)) = Finite (real k)"
  by (simp add: log2_pow2 to_double_nat)

lemma last_upto0: "0 \<le> n \<Longrightarrow> last [0..n] = n"
  by (simp add: upto_rec2)

lemma log2_1e9: "59 / 2 \<le> log 2 1000000000" "log 2 1000000000 \<le> 30"
proof -
  have "log 2 1000000000 \<le> log 2 (2 ^ 30)" by (subst log_le_cancel_iff) simp_all
  then show "log 2 1000000000 \<le> 30" by (simp only: log2_pow2 of_nat_numeral)
  have "log 2 (2 ^ 59) \<le> log 2 (1000000000 ^ 2)" by (subst log_le_cancel_iff) simp_all
  moreover have "log 2 (1000000000 ^ 2) = real 2 * log 2 1000000000"
    by (rule log_nat_power) simp
  ultimately have "real 59 \<le> real 2 * log 2 1000000000" by (simp only: log2_pow2)
  then show "59 / 2 \<le> log 2 1000000000" by simp
qed

lemma rne_minus: "rne (- y) = - rne y"
proof (cases "y = of_int \<lfloor>y\<rfloor>")
  case True
  then obtain f where "y = of_int f" ..
  then have "rne y = f" "rne (- y) = - f"
    using rne_of_int [of f] rne_of_int [of "- f"] by simp_all
  then show ?thesis by simp
next
  case False
  define f where "f = \<lfloor>y\<rfloor>"
  have lo: "of_int f < y" using False f_def by (metis of_int_floor_le order_less_le)
  have hi: "y < of_int f + 1" unfolding f_def by linarith
  have fl: "\<lfloor>- y\<rfloor> = - f - 1" using lo hi by (simp add: floor_eq_iff)
  have ev: "even (- f - 1) \<longleftrightarrow> odd f" by simp
  show ?thesis
    using lo hi ev unfolding rne_def Let_def fl f_def [symmetric]
    by (auto simp: algebra_simps)
qed

lemma round_nearest_minus: "round_nearest (- x) = - round_nearest x"
proof -
  have "quantum (- x) = quantum x" by (simp add: quantum_def expo_def)
  then show ?thesis by (simp add: round_nearest_def rne_minus)
qed

lemma to_double_bounded:
  assumes "\<bar>x\<bar> \<le> 2 ^ 1023" shows "\<exists>y. to_double x = Finite y \<and> \<bar>y\<bar> \<le> 2 ^ 1023"
proof -
  have b: "(2::real) ^ 1023 = of_int 1 * 2 powi 1023" by (simp add: power_int_def)
  have lt: "(2::real) ^ 1023 < 2 ^ 1024" by (intro power_strict_increasing) simp_all
  have pos: "0 \<le> round_nearest z \<and> round_nearest z \<le> 2 ^ 1023" if "0 \<le> z" "z \<le> 2 ^ 1023" for z
  proof (cases "z = 0")
    case True then show ?thesis by (simp add: round_nearest_0)
  next
    case False
    with that have "0 < z" by simp
    moreover have "z \<le> of_int 1 * 2 powi 1023" using that(2) by (simp only: b)
    ultimately have "round_nearest z \<le> of_int 1 * 2 powi 1023"
      by (rule round_nearest_le) simp_all
    then show ?thesis using round_nearest_nonneg [OF that(1)] by (simp only: b [symmetric])
  qed
  have "\<bar>round_nearest x\<bar> \<le> 2 ^ 1023"
  proof (cases "0 \<le> x")
    case True
    with assms pos [of x] show ?thesis by simp
  next
    case False
    with assms pos [of "- x"] show ?thesis by (simp add: round_nearest_minus)
  qed
  then show ?thesis using lt by (simp add: to_double_def Let_def abs_le_iff)
qed

lemma truediv_60_float: "\<exists>m. py_truediv (PyFloat f) (PyInt 60) = Inr m"
  by (cases f) (simp_all add: int_to_float_def to_double_numeral)

lemma tiempo_ok:
  assumes k: "0 \<le> k" "k \<le> 1023" and td: "periodo_admisible td"
  shows "\<exists>t m. py_mul (PyInt k) td = Inr t \<and> py_truediv t (PyInt 60) = Inr m"
proof (cases td)
  case (PyInt p)
  with td have p: "\<bar>p\<bar> \<le> 2 ^ 1000" by simp
  then have "\<bar>real_of_int p\<bar> \<le> 2 ^ 1000"
    by (metis of_int_abs of_int_le_numeral_power_cancel_iff)
  moreover have "\<bar>real_of_int k\<bar> \<le> 2 ^ 10" using k by simp
  ultimately have "\<bar>real_of_int k\<bar> * \<bar>real_of_int p\<bar> \<le> 2 ^ 10 * 2 ^ 1000"
    by (intro mult_mono) simp_all
  also have "\<dots> = (2::real) ^ 1010" by (simp flip: power_add)
  also have "\<dots> \<le> 2 ^ 1023" by (intro power_increasing) simp_all
  finally have "\<bar>real_of_int k * real_of_int p\<bar> \<le> 2 ^ 1023" by (simp add: abs_mult)
  moreover have "\<bar>real_of_int (k * p) / 60\<bar> \<le> \<bar>real_of_int k * real_of_int p\<bar>"
    by (simp add: abs_mult)
  ultimately have "\<bar>real_of_int (k * p) / 60\<bar> \<le> 2 ^ 1023" by linarith
  then obtain y where "to_double (real_of_int (k * p) / 60) = Finite y"
    using to_double_bounded by blast
  then have "py_truediv (PyInt (k * p)) (PyInt 60) = Inr (Finite y)" by (rule truediv_60)
  with PyInt show ?thesis by simp
next
  case (PyFloat f)
  have "to_double (of_int k) = Finite (of_int k)" using k by (intro to_double_int_nonneg) simp_all
  then have "py_mul (PyInt k) (PyFloat f) = Inr (PyFloat (float_mul (Finite (of_int k)) f))"
    by (simp add: int_to_float_def)
  with PyFloat truediv_60_float show ?thesis by blast
qed

lemma volumen_ok:
  assumes "0 \<le> k" "k \<le> 1023"
  shows "\<exists>v. py_mul vi (PyInt (2 ^ nat k)) = Inr v"
proof (cases vi)
  case (PyInt b)
  then show ?thesis by simp
next
  case (PyFloat f)
  have "nat k < 1024" using assms by simp
  then have "to_double (2 ^ nat k) = Finite (2 ^ nat k)" by (rule to_double_pow2)
  then have "int_to_float (2 ^ nat k) = Inr (Finite (2 ^ nat k))"
    by (simp add: int_to_float_def)
  with PyFloat show ?thesis by simp
qed

lemma paso_ok:
  assumes "0 \<le> k" "k \<le> 1023" "periodo_admisible td"
  shows "\<exists>p. paso vi td k = Inr p"
proof -
  from tiempo_ok [OF assms] obtain t m where "py_mul (PyInt k) td = Inr t"
    "py_truediv t (PyInt 60) = Inr m" by blast
  moreover from volumen_ok [OF assms(1,2)] obtain v where
    "py_mul vi (PyInt (2 ^ nat k)) = Inr v" by blast
  ultimately show ?thesis by (simp add: paso_def entonces_def)
qed

lemma evolucion_ok:
  "\<forall>k \<in> set ks. \<exists>p. paso vi td k = Inr p \<Longrightarrow> \<exists>ps. evolucion vi td ks = Inr ps"
proof (induction ks)
  case Nil
  then show ?case by simp
next
  case (Cons k ks)
  from Cons.prems have "\<exists>p. paso vi td k = Inr p" by simp
  then obtain p where p: "paso vi td k = Inr p" ..
  from Cons.prems have "\<forall>k \<in> set ks. \<exists>p. paso vi td k = Inr p" by simp
  then have "\<exists>ps. evolucion vi td ks = Inr ps" by (rule Cons.IH)
  then obtain ps where "evolucion vi td ks = Inr ps" ..
  with p show ?case by (simp add: entonces_def)
qed

lemma log2_redondeado:
  assumes "1 \<le> x" "x \<le> 2 ^ 1023"
  obtains y where "to_double (log 2 x) = Finite y" "0 \<le> y" "y \<le> 1023"
proof -
  have "log 2 x \<le> log 2 (2 ^ 1023)" using assms by (subst log_le_cancel_iff) simp_all
  then have up: "log 2 x \<le> of_int 1023 * 2 powi 0" by (simp only: log2_pow2) simp
  have lo: "0 \<le> log 2 x" using assms(1) by simp
  show ?thesis
  proof (cases "log 2 x = 0")
    case True
    then have "to_double (log 2 x) = Finite 0" by (simp add: to_double_0)
    then show ?thesis by (rule that) simp_all
  next
    case False
    with lo have pos: "0 < log 2 x" by simp
    have small: "real_of_int 1023 * 2 powi 0 < 2 ^ 1024"
    proof -
      have "(1023::real) < 2 ^ 10" by simp
      also have "\<dots> < (2::real) ^ 1024" by (intro power_strict_increasing) simp_all
      finally show ?thesis by simp
    qed
    have "to_double (log 2 x) = Finite (round_nearest (log 2 x))"
      using pos up _ _ small by (rule to_double_pos_le(1)) simp_all
    moreover have "round_nearest (log 2 x) \<le> of_int 1023 * 2 powi 0"
      using pos up by (rule round_nearest_le) simp_all
    moreover have "0 \<le> round_nearest (log 2 x)" using lo by (rule round_nearest_nonneg)
    ultimately show ?thesis by (intro that) simp_all
  qed
qed

lemma is_double_pow2:
  assumes "k < 1024" shows "is_double (2 ^ k)"
proof (rule is_doubleI)
  show "\<bar>1::int\<bar> < 2 ^ 53" by simp
  show "- 1074 \<le> int k" by simp
  show "(2::real) ^ k = real_of_int 1 * 2 powi int k" by (simp add: power_int_def)
  have "(2::real) ^ k < 2 ^ 1024" using assms by (intro power_strict_increasing) simp_all
  then show "\<bar>(2::real) ^ k\<bar> < 2 ^ 1024" by simp
qed

lemma is_double_quarter: "is_double (1 / 4)"
proof (rule is_doubleI)
  show "\<bar>1::int\<bar> < 2 ^ 53" by simp
  show "- 1074 \<le> (- 2 :: int)" by simp
  show "(1 / 4 :: real) = real_of_int 1 * 2 powi (- 2)" by (simp add: power_int_minus)
  have "(1 / 4 :: real) < 2 ^ 0" by simp
  also have "\<dots> < (2::real) ^ 1024" by (intro power_strict_increasing) simp_all
  finally show "\<bar>1 / 4 :: real\<bar> < 2 ^ 1024" by simp
qed

















section \<open>The number of duplications\<close>




section \<open>Degenerate inputs\<close>

text \<open>
  Claim C2. Whenever \<^verbatim>\<open>volumen_inicial <= 0\<close> or
  \<^verbatim>\<open>volumen_objetivo <= volumen_inicial\<close> holds, the function returns the tuple
  \<^verbatim>\<open>(0, 0, [])\<close>: zero minutes, zero duplications and an empty series, whatever the
  doubling period is.
\<close>

theorem degenerate_result:
  "py_le volumen_inicial (PyInt 0) \<or> py_le volumen_objetivo volumen_inicial \<Longrightarrow>
   calcular_tiempo_para_volumen volumen_objetivo volumen_inicial tiempo_duplicacion
     = Inr (PyInt 0, 0, [])"
  by (simp add: calcular_tiempo_para_volumen_def)

theorem degenerate_result_witness:
  "py_le (PyInt 5) (PyInt 10) \<and>
   calcular_tiempo_para_volumen (PyInt 5) (PyInt 10) (PyInt 300) = Inr (PyInt 0, 0, [])"
  using degenerate_result [of "PyInt 10" "PyInt 5" "PyInt 300"] by simp

section \<open>The evolution series\<close>

text \<open>
  Claim C3. On a non-degenerate input the returned series has
  \<open>duplicaciones_necesarias + 1\<close> points, and for every \<open>k\<close> from 0 to
  \<open>duplicaciones_necesarias\<close> its \<open>k\<close>-th point is the tuple of
  \<^verbatim>\<open>(k * tiempo_duplicacion) / 60\<close>, \<^verbatim>\<open>volumen_inicial * (2 ** k)\<close> and \<open>k\<close>, each
  computed by Python's own arithmetic.
\<close>

theorem serie_puntos:
  assumes "\<not> py_le vi (PyInt 0)" "\<not> py_le vo vi" "es_numero vo" "es_numero vi"
    and "calcular_tiempo_para_volumen vo vi td = Inr (tm, n, datos)"
  shows "int (length datos) = n + 1 \<and>
    (\<forall>k. 0 \<le> k \<and> k \<le> n \<longrightarrow>
      (\<exists>t v m. py_mul (PyInt k) td = Inr t \<and> py_truediv t (PyInt 60) = Inr m \<and>
         py_mul vi (PyInt (2 ^ nat k)) = Inr v \<and> datos ! nat k = (m, v, k)))"
  using assms by (rule evolucion_puntos)

theorem serie_puntos_witness:
  "\<not> py_le (PyFloat (Finite 1)) (PyInt 0) \<and> \<not> py_le (PyFloat (Finite 8)) (PyFloat (Finite 1)) \<and>
   es_numero (PyFloat (Finite 8)) \<and> es_numero (PyFloat (Finite 1)) \<and>
   calcular_tiempo_para_volumen (PyFloat (Finite 8)) (PyFloat (Finite 1)) (PyInt 300) =
     Inr (PyFloat (Finite 15), 3,
       [(Finite 0, PyFloat (Finite 1), 0), (Finite 5, PyFloat (Finite 2), 1),
        (Finite 10, PyFloat (Finite 4), 2), (Finite 15, PyFloat (Finite 8), 3)]) \<and>
   int (length [(Finite 0, PyFloat (Finite 1), 0), (Finite 5, PyFloat (Finite 2), 1),
        (Finite 10, PyFloat (Finite 4), 2), (Finite 15 :: pyfloat, PyFloat (Finite 8), 3 :: int)]) = 3 + 1 \<and>
   (\<exists>t v m. py_mul (PyInt 3) (PyInt 300) = Inr t \<and> py_truediv t (PyInt 60) = Inr m \<and>
      py_mul (PyFloat (Finite 1)) (PyInt (2 ^ nat 3)) = Inr v \<and>
      [(Finite 0, PyFloat (Finite 1), 0 :: int), (Finite 5, PyFloat (Finite 2), 1),
       (Finite 10, PyFloat (Finite 4), 2), (Finite 15, PyFloat (Finite 8), 3)] ! nat 3 = (m, v, 3))"
proof -
  have a: "\<not> py_le (PyFloat (Finite 1)) (PyInt 0)" "\<not> py_le (PyFloat (Finite 8)) (PyFloat (Finite 1))"
    by simp_all
  have b: "es_numero (PyFloat (Finite 8))" "es_numero (PyFloat (Finite 1))"
    using is_double_nat [of 8] is_double_nat [of 1] by simp_all
  have c: "(0::int) \<le> 3 \<and> (3::int) \<le> 3" by simp
  note r = serie_puntos [OF a b ejemplo_8]
  note r1 = conjunct1 [OF r]
  note r2 = conjunct2 [OF r, THEN spec, THEN mp, OF c]
  show ?thesis by (intro conjI a b ejemplo_8 r1 r2)
qed

section \<open>The total time\<close>

text \<open>
  Claim C4. On a non-degenerate input the returned total of minutes is
  \<^verbatim>\<open>(duplicaciones_necesarias * tiempo_duplicacion) / 60\<close>, as Python computes it from
  the returned number of duplications.
\<close>

theorem minutos_totales:
  assumes "\<not> py_le vi (PyInt 0)" "\<not> py_le vo vi"
    and "calcular_tiempo_para_volumen vo vi td = Inr (tm, n, datos)"
  shows "\<exists>s m. py_mul (PyInt n) td = Inr s \<and> py_truediv s (PyInt 60) = Inr m \<and> tm = PyFloat m"
  using assms by (rule calcular_Inr) blast

theorem minutos_totales_witness:
  "\<not> py_le (PyFloat (Finite 1)) (PyInt 0) \<and> \<not> py_le (PyFloat (Finite 8)) (PyFloat (Finite 1)) \<and>
   calcular_tiempo_para_volumen (PyFloat (Finite 8)) (PyFloat (Finite 1)) (PyInt 300) =
     Inr (PyFloat (Finite 15), 3,
       [(Finite 0, PyFloat (Finite 1), 0), (Finite 5, PyFloat (Finite 2), 1),
        (Finite 10, PyFloat (Finite 4), 2), (Finite 15, PyFloat (Finite 8), 3)]) \<and>
   (\<exists>s m. py_mul (PyInt 3) (PyInt 300) = Inr s \<and> py_truediv s (PyInt 60) = Inr m \<and>
      PyFloat (Finite 15) = PyFloat m)"
proof -
  have a: "\<not> py_le (PyFloat (Finite 1)) (PyInt 0)" "\<not> py_le (PyFloat (Finite 8)) (PyFloat (Finite 1))"
    by simp_all
  note r = minutos_totales [OF a ejemplo_8]
  show ?thesis by (intro conjI a ejemplo_8 r)
qed

section \<open>Strictly increasing series\<close>




section \<open>Exceptions\<close>

text \<open>
  Claim C6 says that the function never raises. It does: with the binary64 arguments
  \<open>2 ^ 1023\<close> and \<open>0.25\<close> the quotient overflows to infinity, \<^verbatim>\<open>math.log2\<close>
  returns infinity and \<^verbatim>\<open>math.ceil\<close> raises \<^verbatim>\<open>OverflowError\<close>.
\<close>

theorem excepcion_counterexample:
  "es_numero (PyFloat (Finite (2 ^ 1023))) \<and> es_numero (PyFloat (Finite (1 / 4))) \<and>
   calcular_tiempo_para_volumen (PyFloat (Finite (2 ^ 1023))) (PyFloat (Finite (1 / 4)))
     TIEMPO_DUPLICACION = Inl OverflowError"
proof (intro conjI)
  show "es_numero (PyFloat (Finite (2 ^ 1023)))" using is_double_pow2 [of 1023] by simp
  show "es_numero (PyFloat (Finite (1 / 4)))" using is_double_quarter by simp
  have "(2::real) ^ 1024 \<le> 2 ^ 1023 / (1 / 4)" by simp
  then have "to_double (2 ^ 1023 / (1 / 4)) = PosInf" by (rule to_double_overflow)
  then have q: "py_truediv (PyFloat (Finite (2 ^ 1023))) (PyFloat (Finite (1 / 4))) = Inr PosInf"
    by (simp del: power_numeral divide_divide_eq_right)
  have nd: "\<not> py_le (PyFloat (Finite (1 / 4))) (PyInt 0)"
    "\<not> py_le (PyFloat (Finite (2 ^ 1023))) (PyFloat (Finite (1 / 4)))" by simp_all
  show "calcular_tiempo_para_volumen (PyFloat (Finite (2 ^ 1023))) (PyFloat (Finite (1 / 4)))
     TIEMPO_DUPLICACION = Inl OverflowError"
    unfolding calcular_tiempo_para_volumen_def using nd
    by (simp only: q entonces_def math_log2.simps math_ceil.simps sum.case if_False simp_thms)
qed

text \<open>
  Claim C6, amended. The function returns a result on every degenerate input, and on
  every input of \<^verbatim>\<open>int\<close>s and binary64 \<^verbatim>\<open>float\<close>s whose quotient
  \<^verbatim>\<open>volumen_objetivo / volumen_inicial\<close> is a finite float not above \<open>2 ^ 1023\<close>,
  when the doubling period is a \<^verbatim>\<open>float\<close> or an \<^verbatim>\<open>int\<close> of magnitude at most
  \<open>2 ^ 1000\<close>.
\<close>

theorem sin_excepcion:
  assumes wf: "es_numero vo" "es_numero vi" and td: "periodo_admisible td"
    and c: "py_le vi (PyInt 0) \<or> py_le vo vi \<or>
      (\<exists>x. py_truediv vo vi = Inr (Finite x) \<and> x \<le> 2 ^ 1023)"
  shows "\<exists>r. calcular_tiempo_para_volumen vo vi td = Inr r"
proof (cases "py_le vi (PyInt 0) \<or> py_le vo vi")
  case True
  then show ?thesis by (simp add: calcular_tiempo_para_volumen_def)
next
  case False
  then have nd: "\<not> py_le vi (PyInt 0)" "\<not> py_le vo vi" by simp_all
  with c obtain x where q: "py_truediv vo vi = Inr (Finite x)" and x: "x \<le> 2 ^ 1023" by blast
  from nd wf q have x1: "1 \<le> x" by (rule cociente_ge_one)
  from x1 x obtain y where y: "to_double (log 2 x) = Finite y" "0 \<le> y" "y \<le> 1023"
    by (rule log2_redondeado)
  define n where "n = \<lceil>y\<rceil>"
  have n: "0 \<le> n" "n \<le> 1023" using y(2,3) by (simp_all add: n_def ceiling_le_iff)
  have lg: "math_log2 (Finite x) = Inr (Finite y)" using x1 y(1) by simp
  have ce: "math_ceil (Finite y) = Inr n" by (simp add: n_def)
  from tiempo_ok [OF n td] obtain s m where s: "py_mul (PyInt n) td = Inr s"
    and m: "py_truediv s (PyInt 60) = Inr m" by blast
  have "\<forall>k \<in> set [0..n]. \<exists>p. paso vi td k = Inr p"
  proof
    fix k assume "k \<in> set [0..n]"
    then have "0 \<le> k" "k \<le> 1023" using n by simp_all
    then show "\<exists>p. paso vi td k = Inr p" using td by (rule paso_ok)
  qed
  then obtain ps where ev: "evolucion vi td [0..n] = Inr ps" using evolucion_ok by blast
  have "calcular_tiempo_para_volumen vo vi td = Inr (PyFloat m, n, ps)"
    unfolding calcular_tiempo_para_volumen_def using nd
    by (simp only: q lg ce s m ev entonces_ok if_False simp_thms)
  then show ?thesis ..
qed

theorem sin_excepcion_witness:
  "es_numero (PyFloat (Finite 8)) \<and> es_numero (PyFloat (Finite 1)) \<and>
   periodo_admisible (PyInt 300) \<and>
   py_truediv (PyFloat (Finite 8)) (PyFloat (Finite 1)) = Inr (Finite 8) \<and>
   (8::real) \<le> 2 ^ 1023 \<and>
   (\<exists>r. calcular_tiempo_para_volumen (PyFloat (Finite 8)) (PyFloat (Finite 1)) (PyInt 300) = Inr r)"
proof -
  have b: "es_numero (PyFloat (Finite 8))" "es_numero (PyFloat (Finite 1))"
    using is_double_nat [of 8] is_double_nat [of 1] by simp_all
  have p: "periodo_admisible (PyInt 300)"
  proof -
    have "(300::int) \<le> 2 ^ 9" by simp
    also have "\<dots> \<le> (2::int) ^ 1000" by (intro power_increasing) simp_all
    finally show ?thesis by simp
  qed
  have q: "py_truediv (PyFloat (Finite 8)) (PyFloat (Finite 1)) = Inr (Finite 8)"
    by (simp add: to_double_numeral)
  have "(8::real) = 2 ^ 3" by simp
  also have "\<dots> \<le> (2::real) ^ 1023" by (intro power_increasing) simp_all
  finally have x: "(8::real) \<le> 2 ^ 1023" .
  have c: "py_le (PyFloat (Finite 1)) (PyInt 0) \<or> py_le (PyFloat (Finite 8)) (PyFloat (Finite 1)) \<or>
      (\<exists>x. py_truediv (PyFloat (Finite 8)) (PyFloat (Finite 1)) = Inr (Finite x) \<and> x \<le> 2 ^ 1023)"
    using q x by blast
  note r = sin_excepcion [OF b p c]
  show ?thesis by (intro conjI b p q x r)
qed

section \<open>The scenarios of the specification\<close>

text \<open>
  Claim C8. With \<^verbatim>\<open>volumen_inicial = VOLUMEN_DORAYAKI\<close> (0.00015),
  \<^verbatim>\<open>volumen_objetivo = VOLUMEN_DORAYAKI * 1024\<close> computed in binary64 and the default
  period of 300 seconds, the function returns 10 duplications, 50.0 minutes and a series
  of 11 points whose last point is at 50.0 minutes with a volume within \<open>10\<^sup>-\<^sup>1\<^sup>5\<close> of
  0.1536.
\<close>

theorem escenario_dorayaki:
  "py_mul VOLUMEN_DORAYAKI (PyInt 1024) = Inr (PyFloat (Finite (5534023222112865 * 2 powi (- 55)))) \<and>
   calcular_tiempo_para_volumen (PyFloat (Finite (5534023222112865 * 2 powi (- 55))))
       VOLUMEN_DORAYAKI TIEMPO_DUPLICACION =
     Inr (PyFloat (Finite 50), 10,
       map (\<lambda>k. (Finite (of_int (5 * k)), PyFloat (Finite (5534023222112865 * 2 powi (- 65 + k))), k))
         [0..10]) \<and>
   length (map (\<lambda>k. (Finite (of_int (5 * k)),
       PyFloat (Finite (5534023222112865 * 2 powi (- 65 + k))), k)) [0..10]) = 11 \<and>
   last (map (\<lambda>k. (Finite (of_int (5 * k)),
       PyFloat (Finite (5534023222112865 * 2 powi (- 65 + k))), k)) [0..10]) =
     (Finite 50, PyFloat (Finite (5534023222112865 * 2 powi (- 55))), 10) \<and>
   \<bar>5534023222112865 * 2 powi (- 55) - 1536 / 10000\<bar> < (1 / 10 ^ 15 :: real)"
proof (intro conjI)
  let ?m = "5534023222112865 :: int"
  have vi: "VOLUMEN_DORAYAKI = PyFloat (Finite (of_int ?m * 2 powi (- 65)))"
    unfolding VOLUMEN_DORAYAKI_def dorayaki_double by simp
  have td: "TIEMPO_DUPLICACION = PyInt 300" by (simp add: TIEMPO_DUPLICACION_def)
  have e: "to_double (of_int ?m * 2 powi (- 55)) = Finite (of_int ?m * 2 powi (- 55))"
    by (rule to_double_exact) (simp_all add: power_int_minus)
  have "of_int ?m * 2 powi (- 65) * 1024 = of_int ?m * (2::real) powi (- 55)"
    by (simp add: power_int_minus)
  with e have "to_double (of_int ?m * 2 powi (- 65) * 1024) = Finite (of_int ?m * 2 powi (- 55))"
    by (simp only:)
  then show "py_mul VOLUMEN_DORAYAKI (PyInt 1024) =
      Inr (PyFloat (Finite (5534023222112865 * 2 powi (- 55))))"
    unfolding vi by (simp add: int_to_float_def to_double_numeral)
  have l: "to_double (log 2 1024) = Finite 10"
    using to_double_log2_pow2 [of 10] by simp
  have q: "py_truediv (PyFloat (Finite (5534023222112865 * 2 powi (- 55))))
      (PyFloat (Finite (of_int ?m * 2 powi (- 65)))) = Inr (Finite 1024)"
    by (simp add: power_int_minus to_double_numeral)
  have "calcular_tiempo_para_volumen (PyFloat (Finite (5534023222112865 * 2 powi (- 55))))
      (PyFloat (Finite (of_int ?m * 2 powi (- 65)))) (PyInt 300) =
     Inr (PyFloat (Finite (of_int (5 * 10))), 10,
       map (\<lambda>k. (Finite (of_int (5 * k)), PyFloat (Finite (of_int ?m * 2 powi (- 65 + k))), k))
         [0..10])"
    by (rule calcular_300 [OF _ _ _ _ _ q _ l]) (simp_all add: power_int_minus)
  then show "calcular_tiempo_para_volumen (PyFloat (Finite (5534023222112865 * 2 powi (- 55))))
       VOLUMEN_DORAYAKI TIEMPO_DUPLICACION =
     Inr (PyFloat (Finite 50), 10,
       map (\<lambda>k. (Finite (of_int (5 * k)), PyFloat (Finite (5534023222112865 * 2 powi (- 65 + k))), k))
         [0..10])"
    unfolding vi td by simp
  show "length (map (\<lambda>k. (Finite (of_int (5 * k)),
       PyFloat (Finite (5534023222112865 * 2 powi (- 65 + k))), k)) [0..10]) = 11"
    by simp
  have "[0..10] \<noteq> []" by (simp add: upto.simps)
  then show "last (map (\<lambda>k. (Finite (of_int (5 * k)),
       PyFloat (Finite (5534023222112865 * 2 powi (- 65 + k))), k)) [0..10]) =
     (Finite 50, PyFloat (Finite (5534023222112865 * 2 powi (- 55))), 10)"
    by (simp add: last_map last_upto0)
  show "\<bar>5534023222112865 * 2 powi (- 55) - 1536 / 10000\<bar> < (1 / 10 ^ 15 :: real)"
    by (simp add: power_int_minus)
qed

text \<open>
  Claim C9. With \<^verbatim>\<open>volumen_objetivo = 100\<close>, \<^verbatim>\<open>volumen_inicial = VOLUMEN_CANICA\<close>
  (0.0000001) and the default period of 300 seconds, the function returns 30
  duplications and 150.0 minutes.
\<close>

theorem escenario_canica:
  "calcular_tiempo_para_volumen (PyInt 100) VOLUMEN_CANICA TIEMPO_DUPLICACION =
     Inr (PyFloat (Finite 150), 30,
       map (\<lambda>k. (Finite (of_int (5 * k)), PyFloat (Finite (944473296573929 * 2 powi (- 73 + k))), k))
         [0..30])"
proof -
  let ?m = "944473296573929 :: int"
  let ?x = "log 2 1000000000"
  have vi: "VOLUMEN_CANICA = PyFloat (Finite (of_int ?m * 2 powi (- 73)))"
    unfolding VOLUMEN_CANICA_def canica_double by simp
  have td: "TIEMPO_DUPLICACION = PyInt 300" by (simp add: TIEMPO_DUPLICACION_def)
  have "round_nearest (100 / (of_int ?m * 2 powi (- 73))) = of_int 8388608000000000 * 2 powi (29 - 52)"
    by (rule round_nearest_eval) (simp_all add: power_int_minus)
  then have "round_nearest (100 / (of_int ?m * 2 powi (- 73))) = 1000000000"
    by (simp add: power_int_minus)
  then have c: "to_double (100 / (of_int ?m * 2 powi (- 73))) = Finite 1000000000"
    by (simp add: to_double_def)
  have q: "py_truediv (PyInt 100) (PyFloat (Finite (of_int ?m * 2 powi (- 73)))) =
      Inr (Finite 1000000000)"
    using c by (simp add: int_to_float_def to_double_numeral)
  have pos: "0 < ?x" using log2_1e9(1) by linarith
  have le: "?x \<le> of_int 30 * 2 powi 0" using log2_1e9(2) by simp
  have ge: "of_int 59 * 2 powi (- 1) \<le> ?x" using log2_1e9(1) by (simp add: power_int_minus)
  have up: "round_nearest ?x \<le> of_int 30 * 2 powi 0"
    using pos le by (rule round_nearest_le) simp_all
  have lo: "of_int 59 * 2 powi (- 1) \<le> round_nearest ?x"
    using _ ge by (rule round_nearest_ge) simp_all
  have l: "to_double ?x = Finite (round_nearest ?x)"
    using pos le by (rule to_double_pos_le(1)) simp_all
  have n: "\<lceil>round_nearest ?x\<rceil> = 30"
    using up lo by (simp add: ceiling_eq_iff power_int_minus)
  have "calcular_tiempo_para_volumen (PyInt 100)
      (PyFloat (Finite (of_int ?m * 2 powi (- 73)))) (PyInt 300) =
     Inr (PyFloat (Finite (of_int (5 * 30))), 30,
       map (\<lambda>k. (Finite (of_int (5 * k)), PyFloat (Finite (of_int ?m * 2 powi (- 73 + k))), k))
         [0..30])"
    by (rule calcular_300 [OF _ _ _ _ _ q _ l n]) (simp_all add: power_int_minus)
  then show ?thesis unfolding vi td by simp
qed

section \<open>The last point of the series\<close>

text \<open>
  Claim C10. On a non-degenerate input the returned series is not empty, and its last
  point carries the returned total of minutes and the returned number of duplications.
\<close>

theorem ultimo_punto:
  assumes "\<not> py_le vi (PyInt 0)" "\<not> py_le vo vi" "es_numero vo" "es_numero vi"
    and "calcular_tiempo_para_volumen vo vi td = Inr (tm, n, datos)"
  shows "datos \<noteq> [] \<and> PyFloat (fst (last datos)) = tm \<and> snd (snd (last datos)) = n"
proof -
  from assms(1,2,5) obtain s m where s: "py_mul (PyInt n) td = Inr s"
    and m: "py_truediv s (PyInt 60) = Inr m" and tm: "tm = PyFloat m"
    by (rule calcular_Inr)
  from assms have n: "0 \<le> n" by (rule duplicaciones_nonneg)
  note r = evolucion_puntos [OF assms]
  have len: "int (length datos) = n + 1" by (rule conjunct1 [OF r])
  have nn: "0 \<le> n \<and> n \<le> n" using n by simp
  from conjunct2 [OF r, THEN spec, THEN mp, OF nn]
  obtain t v m' where "py_mul (PyInt n) td = Inr t" "py_truediv t (PyInt 60) = Inr m'"
    "datos ! nat n = (m', v, n)" by blast
  with s m have nth: "datos ! nat n = (m, v, n)" by simp
  from len n have ne: "datos \<noteq> []" by auto
  from len n have "length datos - 1 = nat n" by simp
  with ne nth have "last datos = (m, v, n)" by (simp add: last_conv_nth)
  with ne tm show ?thesis by simp
qed

theorem ultimo_punto_witness:
  "\<not> py_le (PyFloat (Finite 1)) (PyInt 0) \<and> \<not> py_le (PyFloat (Finite 8)) (PyFloat (Finite 1)) \<and>
   es_numero (PyFloat (Finite 8)) \<and> es_numero (PyFloat (Finite 1)) \<and>
   calcular_tiempo_para_volumen (PyFloat (Finite 8)) (PyFloat (Finite 1)) (PyInt 300) =
     Inr (PyFloat (Finite 15), 3,
       [(Finite 0, PyFloat (Finite 1), 0), (Finite 5, PyFloat (Finite 2), 1),
        (Finite 10, PyFloat (Finite 4), 2), (Finite 15, PyFloat (Finite 8), 3)]) \<and>
   [(Finite 0, PyFloat (Finite 1), 0 :: int), (Finite 5, PyFloat (Finite 2), 1),
    (Finite 10, PyFloat (Finite 4), 2), (Finite 15, PyFloat (Finite 8), 3)] \<noteq> [] \<and>
   PyFloat (fst (last [(Finite 0, PyFloat (Finite 1), 0 :: int), (Finite 5, PyFloat (Finite 2), 1),
    (Finite 10, PyFloat (Finite 4), 2), (Finite 15, PyFloat (Finite 8), 3)])) = PyFloat (Finite 15) \<and>
   snd (snd (last [(Finite 0, PyFloat (Finite 1), 0 :: int), (Finite 5, PyFloat (Finite 2), 1),
    (Finite 10, PyFloat (Finite 4), 2), (Finite 15, PyFloat (Finite 8), 3)])) = 3"
proof -
  have a: "\<not> py_le (PyFloat (Finite 1)) (PyInt 0)" "\<not> py_le (PyFloat (Finite 8)) (PyFloat (Finite 1))"
    by simp_all
  have b: "es_numero (PyFloat (Finite 8))" "es_numero (PyFloat (Finite 1))"
    using is_double_nat [of 8] is_double_nat [of 1] by simp_all
  note r = ultimo_punto [OF a b ejemplo_8]
  note r1 = conjunct1 [OF r]
  note r2 = conjunct1 [OF conjunct2 [OF r]]
  note r3 = conjunct2 [OF conjunct2 [OF r]]
  show ?thesis by (intro conjI a b ejemplo_8 r1 r2 r3)
qed

end
